theory Spec2Isabelle
  imports Main "HOL-Library.DAList"
begin

section \<open>Values and the formatting routines of package fmt\<close>

text \<open>
  The methods of \<^verbatim>\<open>logr.go\<close> take arguments of type \<^verbatim>\<open>interface{}\<close> and hand them to
  \<^verbatim>\<open>fmt.Sprintln\<close> and \<^verbatim>\<open>fmt.Sprintf\<close>. The values modelled here are strings, integers,
  booleans and the nil interface, with the text the verb \<^verbatim>\<open>%v\<close> gives each of them.
\<close>

datatype val = VString string | VInt int | VBool bool | VNil

fun fmt_nat :: "nat \<Rightarrow> string" where
  "fmt_nat n =
     (if n < 10 then [''0123456789'' ! n]
      else fmt_nat (n div 10) @ [''0123456789'' ! (n mod 10)])"

declare fmt_nat.simps [simp del]

definition fmtInteger :: "int \<Rightarrow> string" where
  "fmtInteger i = (if i < 0 then CHR ''-'' # fmt_nat (nat (- i)) else fmt_nat (nat i))"

fun printArg :: "val \<Rightarrow> string" where
  "printArg (VString s) = s"
| "printArg (VInt i) = fmtInteger i"
| "printArg (VBool b) = (if b then ''true'' else ''false'')"
| "printArg VNil = ''<nil>''"

definition newline :: char where
  "newline = CHR 0x0A"

text \<open>
  \<^verbatim>\<open>fmt.Sprintln\<close>: every operand is written in its default format, a space is written
  before every operand but the first, and a newline is written at the end. The function
  \<open>doPrintln\<close> is that loop over the operands: the buffer written so far, the index of
  the next operand, the operands left.
\<close>

fun doPrintln :: "string \<Rightarrow> nat \<Rightarrow> val list \<Rightarrow> string" where
  "doPrintln buf argNum [] = buf @ [newline]"
| "doPrintln buf argNum (arg # a) =
     doPrintln ((if argNum > 0 then buf @ '' '' else buf) @ printArg arg) (Suc argNum) a"

definition Sprintln :: "val list \<Rightarrow> string" where
  "Sprintln a = doPrintln [] 0 a"

text \<open>
  The reading of "joined by single spaces": the strings of a list, one space between
  each two neighbours, nothing before the first and nothing after the last.
\<close>

fun join_spaces :: "string list \<Rightarrow> string" where
  "join_spaces [] = []"
| "join_spaces [s] = s"
| "join_spaces (s # t # ss) = s @ '' '' @ join_spaces (t # ss)"

section \<open>The heap: emitters, maps and the calls made on backends\<close>

text \<open>
  A Go map is a reference to a map object, or nil; a \<^verbatim>\<open>*Info\<close> is a pointer. Both are
  modelled in an explicit store, so that sharing (\<^verbatim>\<open>V\<close> and \<^verbatim>\<open>WithPrefix\<close> hand the
  receiver's map on, \<^verbatim>\<open>WithFields\<close> makes a new one) is visible. An object's address is
  its index in the list of the objects of its type; allocation appends, nothing is freed.
  A map object is an association list with distinct keys, in the order a \<^verbatim>\<open>range\<close>
  loop visits it. A backend is an opaque handle: the interface value the constructor was
  given, an implementation of the interface. A call on a backend is recorded with the
  arguments it was made with; what the backend does with them is not part of the
  package, and it leaves the heap as it is. The level is a Go \<^verbatim>\<open>int\<close> that is stored and
  handed on, never computed with.
\<close>

type_synonym addr = nat
type_synonym InfoLogger = nat
type_synonym ErrorLogger = nat

record Info =
  logger :: InfoLogger
  level :: int
  fields_map :: "addr option"
  prefix :: string

record Log =
  info :: Info
  err :: ErrorLogger

datatype call =
  LogInfo InfoLogger int "addr option" string
| LogError ErrorLogger "addr option" string

record world =
  infos :: "Info list"
  logs :: "Log list"
  maps :: "(string, val) alist list"
  calls :: "call list"

text \<open>
  A \<^verbatim>\<open>*Info\<close> points to an \<open>Info\<close> of its own on the heap (\<open>InfoAt\<close>), or to the field
  \<^verbatim>\<open>info\<close> of a \<open>Log\<close> on the heap (\<open>InfoOf\<close>, the pointer \<^verbatim>\<open>&l.info\<close>). A \<^verbatim>\<open>*Log\<close> is
  the address of the \<open>Log\<close>. An address with no object stands for the nil pointer.
\<close>

datatype Info_ptr = InfoAt addr | InfoOf addr

datatype panic = InvalidMemoryAddress | SliceBoundsOutOfRange | AssignmentToNilMap

definition at :: "'a list \<Rightarrow> addr \<Rightarrow> 'a option" where
  "at xs a = (if a < length xs then Some (xs ! a) else None)"

fun deref :: "world \<Rightarrow> Info_ptr \<Rightarrow> Info option" where
  "deref w (InfoAt a) = at (infos w) a"
| "deref w (InfoOf a) = map_option info (at (logs w) a)"

definition new_Info :: "world \<Rightarrow> Info \<Rightarrow> world \<times> Info_ptr" where
  "new_Info w e = (w\<lparr>infos := infos w @ [e]\<rparr>, InfoAt (length (infos w)))"

definition new_Log :: "world \<Rightarrow> Log \<Rightarrow> world \<times> addr" where
  "new_Log w L = (w\<lparr>logs := logs w @ [L]\<rparr>, length (logs w))"

text \<open>
  \<^verbatim>\<open>make(map[string]interface{}, n)\<close>: a reference to a new, empty map object (the size
  hint has no effect on the content). \<^verbatim>\<open>f[k] = v\<close>: the entry is set in the map object
  \<open>f\<close> refers to; an assignment to an entry of the nil map is a run-time panic. The
  entries a \<^verbatim>\<open>range\<close> loop visits: none for the nil map.
\<close>

definition make_map :: "world \<Rightarrow> world \<times> addr option" where
  "make_map w = (w\<lparr>maps := maps w @ [DAList.empty]\<rparr>, Some (length (maps w)))"

definition mapassign :: "world \<Rightarrow> addr option \<Rightarrow> string \<Rightarrow> val \<Rightarrow> panic + world" where
  "mapassign w f k v =
     (case f of
        None \<Rightarrow> Inl AssignmentToNilMap
      | Some a \<Rightarrow>
          (if a < length (maps w)
           then Inr (w\<lparr>maps := (maps w)[a := DAList.update k v (maps w ! a)]\<rparr>)
           else Inl InvalidMemoryAddress))"

definition entries :: "world \<Rightarrow> addr option \<Rightarrow> panic + (string \<times> val) list" where
  "entries w r =
     (case r of
        None \<Rightarrow> Inr []
      | Some a \<Rightarrow>
          (case at (maps w) a of
             None \<Rightarrow> Inl InvalidMemoryAddress
           | Some m \<Rightarrow> Inr (DAList.impl_of m)))"

text \<open>
  A map reference is valid when it is nil or refers to a map object of the heap. Go has
  no other references; the lemmas about an emitter assume it of the emitter's map and of
  the maps passed in.
\<close>

definition valid_ref :: "world \<Rightarrow> addr option \<Rightarrow> bool" where
  "valid_ref w r = (case r of None \<Rightarrow> True | Some a \<Rightarrow> a < length (maps w))"

text \<open>
  The FieldSet a map reference stands for: the mapping from keys to values, whatever
  the order of the entries, and empty for the nil map.
\<close>

definition FieldSet :: "world \<Rightarrow> addr option \<Rightarrow> (string \<rightharpoonup> val)" where
  "FieldSet w r = (case entries w r of Inl _ \<Rightarrow> Map.empty | Inr kvs \<Rightarrow> map_of kvs)"

section \<open>Info\<close>

definition NewInfo :: "world \<Rightarrow> InfoLogger \<Rightarrow> world \<times> Info_ptr" where
  "NewInfo w lg = new_Info w \<lparr>logger = lg, level = 0, fields_map = None, prefix = []\<rparr>"

text \<open>
  \<^verbatim>\<open>s[:n]\<close> on a string: a run-time panic unless \<open>0 \<le> n \<le> len(s)\<close>.
\<close>

definition slice_to :: "string \<Rightarrow> int \<Rightarrow> panic + string" where
  "slice_to s hi =
     (if 0 \<le> hi \<and> hi \<le> int (length s) then Inr (take (nat hi) s)
      else Inl SliceBoundsOutOfRange)"

definition Info_Info :: "world \<Rightarrow> Info_ptr \<Rightarrow> val list \<Rightarrow> panic + world" where
  "Info_Info w l args =
     (let s = Sprintln args in
      case deref w l of
        None \<Rightarrow> Inl InvalidMemoryAddress
      | Some e \<Rightarrow>
          (case slice_to s (int (length s) - 1) of
             Inl p \<Rightarrow> Inl p
           | Inr m \<Rightarrow>
               Inr (w\<lparr>calls := calls w @
                      [LogInfo (logger e) (level e) (fields_map e) (prefix e @ m)]\<rparr>)))"

text \<open>
  \<^verbatim>\<open>fmt.Sprintf\<close> is a parameter of \<open>Infof\<close> and \<open>Errorf\<close>: any function from a format
  and the arguments to a string.
\<close>

definition Info_Infof ::
  "(string \<Rightarrow> val list \<Rightarrow> string) \<Rightarrow> world \<Rightarrow> Info_ptr \<Rightarrow> string \<Rightarrow> val list \<Rightarrow> panic + world" where
  "Info_Infof Sprintf w l format args =
     (case deref w l of
        None \<Rightarrow> Inl InvalidMemoryAddress
      | Some e \<Rightarrow>
          Inr (w\<lparr>calls := calls w @
                 [LogInfo (logger e) (level e) (fields_map e) (prefix e @ Sprintf format args)]\<rparr>))"

definition Info_V :: "world \<Rightarrow> Info_ptr \<Rightarrow> int \<Rightarrow> panic + world \<times> Info_ptr" where
  "Info_V w l lv =
     (case deref w l of
        None \<Rightarrow> Inl InvalidMemoryAddress
      | Some e \<Rightarrow>
          Inr (new_Info w
                \<lparr>logger = logger e, level = lv, fields_map = fields_map e, prefix = prefix e\<rparr>))"

text \<open>
  The two loops of \<open>WithFields\<close>, \<^verbatim>\<open>for k, v := range m { f[k] = v }\<close>, over the entries
  of \<open>m\<close> in the order the loop visits them.
\<close>

fun range_copy :: "(string \<times> val) list \<Rightarrow> addr option \<Rightarrow> world \<Rightarrow> panic + world" where
  "range_copy [] f w = Inr w"
| "range_copy ((k, v) # kvs) f w =
     (case mapassign w f k v of
        Inl p \<Rightarrow> Inl p
      | Inr w' \<Rightarrow> range_copy kvs f w')"

definition Info_WithFields ::
  "world \<Rightarrow> Info_ptr \<Rightarrow> addr option \<Rightarrow> panic + world \<times> Info_ptr" where
  "Info_WithFields w l flds =
     (case deref w l of
        None \<Rightarrow> Inl InvalidMemoryAddress
      | Some e \<Rightarrow>
          (let (w1, f) = make_map w in
           case entries w1 (fields_map e) of
             Inl p \<Rightarrow> Inl p
           | Inr own \<Rightarrow>
               (case range_copy own f w1 of
                  Inl p \<Rightarrow> Inl p
                | Inr w2 \<Rightarrow>
                    (case entries w2 flds of
                       Inl p \<Rightarrow> Inl p
                     | Inr given \<Rightarrow>
                         (case range_copy given f w2 of
                            Inl p \<Rightarrow> Inl p
                          | Inr w3 \<Rightarrow>
                              Inr (new_Info w3
                                    \<lparr>logger = logger e, level = level e, fields_map = f,
                                     prefix = prefix e\<rparr>))))))"

definition Info_WithPrefix :: "world \<Rightarrow> Info_ptr \<Rightarrow> string \<Rightarrow> panic + world \<times> Info_ptr" where
  "Info_WithPrefix w l p =
     (case deref w l of
        None \<Rightarrow> Inl InvalidMemoryAddress
      | Some e \<Rightarrow>
          Inr (new_Info w
                \<lparr>logger = logger e, level = level e, fields_map = fields_map e,
                 prefix = prefix e @ p\<rparr>))"

section \<open>Log\<close>

definition New :: "world \<Rightarrow> InfoLogger \<Rightarrow> ErrorLogger \<Rightarrow> world \<times> addr" where
  "New w i e =
     new_Log w \<lparr>info = \<lparr>logger = i, level = 0, fields_map = None, prefix = []\<rparr>, err = e\<rparr>"

definition AsInfo :: "world \<Rightarrow> addr \<Rightarrow> panic + Info_ptr" where
  "AsInfo w l = (case at (logs w) l of None \<Rightarrow> Inl InvalidMemoryAddress | Some _ \<Rightarrow> Inr (InfoOf l))"

definition Log_Info :: "world \<Rightarrow> addr \<Rightarrow> val list \<Rightarrow> panic + world" where
  "Log_Info w l args = Info_Info w (InfoOf l) args"

definition Log_Infof ::
  "(string \<Rightarrow> val list \<Rightarrow> string) \<Rightarrow> world \<Rightarrow> addr \<Rightarrow> string \<Rightarrow> val list \<Rightarrow> panic + world" where
  "Log_Infof Sprintf w l format args = Info_Infof Sprintf w (InfoOf l) format args"

definition Log_Error :: "world \<Rightarrow> addr \<Rightarrow> val list \<Rightarrow> panic + world" where
  "Log_Error w l args =
     (let s = Sprintln args in
      case at (logs w) l of
        None \<Rightarrow> Inl InvalidMemoryAddress
      | Some L \<Rightarrow>
          (case slice_to s (int (length s) - 1) of
             Inl p \<Rightarrow> Inl p
           | Inr m \<Rightarrow>
               Inr (w\<lparr>calls := calls w @
                      [LogError (err L) (fields_map (info L)) (prefix (info L) @ m)]\<rparr>)))"

definition Log_Errorf ::
  "(string \<Rightarrow> val list \<Rightarrow> string) \<Rightarrow> world \<Rightarrow> addr \<Rightarrow> string \<Rightarrow> val list \<Rightarrow> panic + world" where
  "Log_Errorf Sprintf w l format args =
     (case at (logs w) l of
        None \<Rightarrow> Inl InvalidMemoryAddress
      | Some L \<Rightarrow>
          Inr (w\<lparr>calls := calls w @
                 [LogError (err L) (fields_map (info L)) (prefix (info L) @ Sprintf format args)]\<rparr>))"

definition Log_V :: "world \<Rightarrow> addr \<Rightarrow> int \<Rightarrow> panic + world \<times> Info_ptr" where
  "Log_V w l lv = Info_V w (InfoOf l) lv"

text \<open>
  \<^verbatim>\<open>&Log{info: *l.info.WithFields(fields), err: l.err}\<close>: the derived \<open>Info\<close> is
  allocated by \<open>Info_WithFields\<close>, read through the pointer returned, and copied into the
  new \<open>Log\<close>.
\<close>

definition Log_WithFields :: "world \<Rightarrow> addr \<Rightarrow> addr option \<Rightarrow> panic + world \<times> addr" where
  "Log_WithFields w l flds =
     (case Info_WithFields w (InfoOf l) flds of
        Inl p \<Rightarrow> Inl p
      | Inr (w1, q) \<Rightarrow>
          (case deref w1 q of
             None \<Rightarrow> Inl InvalidMemoryAddress
           | Some e \<Rightarrow>
               (case at (logs w1) l of
                  None \<Rightarrow> Inl InvalidMemoryAddress
                | Some L \<Rightarrow> Inr (new_Log w1 \<lparr>info = e, err = err L\<rparr>))))"

definition Log_WithPrefix :: "world \<Rightarrow> addr \<Rightarrow> string \<Rightarrow> panic + world \<times> addr" where
  "Log_WithPrefix w l p =
     (case Info_WithPrefix w (InfoOf l) p of
        Inl x \<Rightarrow> Inl x
      | Inr (w1, q) \<Rightarrow>
          (case deref w1 q of
             None \<Rightarrow> Inl InvalidMemoryAddress
           | Some e \<Rightarrow>
               (case at (logs w1) l of
                  None \<Rightarrow> Inl InvalidMemoryAddress
                | Some L \<Rightarrow> Inr (new_Log w1 \<lparr>info = e, err = err L\<rparr>))))"

section \<open>What is observed\<close>

text \<open>
  The observable state of an emitter: its backend, its level, its FieldSet (the content
  of the map it refers to) and its prefix.
\<close>

definition observe ::
  "world \<Rightarrow> Info_ptr \<Rightarrow> (InfoLogger \<times> int \<times> (string \<rightharpoonup> val) \<times> string) option" where
  "observe w l =
     map_option (\<lambda>e. (logger e, level e, FieldSet w (fields_map e), prefix e)) (deref w l)"

text \<open>
  What a backend is handed by a call: the level, the message and the content of the map
  at the time of the call.
\<close>

datatype delivery =
  InfoDelivery InfoLogger int "string \<Rightarrow> val option" string
| ErrorDelivery ErrorLogger "string \<Rightarrow> val option" string

fun received :: "world \<Rightarrow> call \<Rightarrow> delivery" where
  "received w (LogInfo b lv r m) = InfoDelivery b lv (FieldSet w r) m"
| "received w (LogError b r m) = ErrorDelivery b (FieldSet w r) m"

text \<open>
  What the backends are handed by one call of \<open>Info\<close> or of \<open>Infof\<close> through a pointer:
  the calls the operation adds to those made before, as the backends receive them.
\<close>

definition Info_delivers :: "world \<Rightarrow> Info_ptr \<Rightarrow> val list \<Rightarrow> delivery list option" where
  "Info_delivers w l args =
     (case Info_Info w l args of
        Inl _ \<Rightarrow> None
      | Inr w' \<Rightarrow> Some (map (received w') (drop (length (calls w)) (calls w'))))"

definition Infof_delivers ::
  "(string \<Rightarrow> val list \<Rightarrow> string) \<Rightarrow> world \<Rightarrow> Info_ptr \<Rightarrow> string \<Rightarrow> val list \<Rightarrow>
     delivery list option" where
  "Infof_delivers Sprintf w l format args =
     (case Info_Infof Sprintf w l format args of
        Inl _ \<Rightarrow> None
      | Inr w' \<Rightarrow> Some (map (received w') (drop (length (calls w)) (calls w'))))"

text \<open>
  A small heap for the examples: a root emitter on backend 7, an emitter derived from
  it with a level, a map and a prefix, a \<open>Log\<close> on the backends 7 and 9, and four maps.
\<close>

definition ex_maps :: "(string, val) alist list" where
  "ex_maps =
     [DAList.update ''k'' (VInt 1) DAList.empty,
      DAList.update ''k'' (VInt 2) (DAList.update ''j'' (VString ''x'') DAList.empty),
      DAList.update ''j'' (VBool True) DAList.empty,
      DAList.empty]"

definition ex_root :: Info where
  "ex_root = \<lparr>logger = 7, level = 0, fields_map = None, prefix = []\<rparr>"

definition ex_info :: Info where
  "ex_info = \<lparr>logger = 7, level = 2, fields_map = Some 0, prefix = ''p: ''\<rparr>"

definition ex_log :: Log where
  "ex_log = \<lparr>info = \<lparr>logger = 7, level = 0, fields_map = Some 0, prefix = ''q: ''\<rparr>, err = 9\<rparr>"

definition ex_world :: world where
  "ex_world = \<lparr>infos = [ex_root, ex_info], logs = [ex_log], maps = ex_maps, calls = []\<rparr>"

section \<open>Lemmas on the model\<close>

subsection \<open>Lists as stores\<close>

lemma at_append:
  "at (xs @ [x]) a = (if a = length xs then Some x else at xs a)"
  by (simp add: at_def nth_append)

lemma at_Some_length: "at xs a = Some y \<Longrightarrow> a < length xs"
  by (simp add: at_def split: if_splits)

lemma at_prefix: "a < length xs \<Longrightarrow> at (xs @ ys) a = at xs a"
  by (simp add: at_def nth_append)

lemma at_Some_prefix: "at xs a = Some y \<Longrightarrow> at (xs @ ys) a = Some y"
  using at_prefix[of a xs ys] at_Some_length[of xs a y] by simp

lemma at_update_same: "at xs a = Some x \<Longrightarrow> at (xs[a := y]) a = Some y"
  by (simp add: at_def split: if_splits)

subsection \<open>Formatting\<close>

lemma doPrintln_pos:
  "0 < n \<Longrightarrow> doPrintln buf n a = buf @ concat (map (\<lambda>x. '' '' @ printArg x) a) @ [newline]"
  by (induction a arbitrary: buf n) simp_all

lemma join_spaces_Cons:
  "join_spaces (s # ss) = s @ concat (map (\<lambda>t. '' '' @ t) ss)"
  by (induction ss arbitrary: s) simp_all

lemma Sprintln_join: "Sprintln a = join_spaces (map printArg a) @ [newline]"
proof (cases a)
  case Nil
  then show ?thesis by (simp add: Sprintln_def)
next
  case (Cons x xs)
  then show ?thesis
    by (simp add: Sprintln_def doPrintln_pos join_spaces_Cons comp_def del: join_spaces.simps)
qed

lemma slice_to_drop_last:
  "slice_to (s @ [c]) (int (length (s @ [c])) - 1) = Inr s"
  by (simp add: slice_to_def)

subsection \<open>Pointers, map references and what is observed\<close>

lemma deref_last: "infos w' = infos w @ [x] \<Longrightarrow> deref w' (InfoAt (length (infos w))) = Some x"
  by (simp add: at_append)

lemma deref_old:
  assumes "deref w l = Some e" and "logs w' = logs w" and "infos w' = infos w @ xs"
  shows "deref w' l = Some e"
proof (cases l)
  case (InfoAt a)
  with assms(1) have "at (infos w) a = Some e" by simp
  then have "at (infos w @ xs) a = Some e" by (rule at_Some_prefix)
  with InfoAt assms(3) show ?thesis by simp
next
  case (InfoOf a)
  with assms(1,2) show ?thesis by simp
qed

lemma deref_calls: "deref (w\<lparr>calls := c\<rparr>) p = deref w p"
  by (cases p) simp_all

lemma deref_not_fresh: "deref w l = Some e \<Longrightarrow> l \<noteq> InfoAt (length (infos w))"
  by (auto simp: at_def)

lemma valid_ref_grow:
  "valid_ref w r \<Longrightarrow> maps w' = maps w @ ms \<Longrightarrow> valid_ref w' r"
  by (cases r) (simp_all add: valid_ref_def)

lemma entries_grow:
  assumes "valid_ref w r" and "maps w' = maps w @ ms"
  shows "entries w' r = entries w r"
proof (cases r)
  case None
  then show ?thesis by (simp add: entries_def)
next
  case (Some a)
  with assms(1) have "a < length (maps w)" by (simp add: valid_ref_def)
  then have "at (maps w @ ms) a = at (maps w) a" by (rule at_prefix)
  with Some assms(2) show ?thesis by (simp add: entries_def)
qed

lemma entries_valid:
  "valid_ref w r \<Longrightarrow> \<exists>kvs. entries w r = Inr kvs \<and> distinct (map fst kvs) \<and> FieldSet w r = map_of kvs"
proof (cases r)
  case None
  then show ?thesis by (simp add: FieldSet_def entries_def)
next
  case (Some a)
  assume "valid_ref w r"
  with Some have "at (maps w) a = Some (maps w ! a)" by (simp add: valid_ref_def at_def)
  with Some show ?thesis by (simp add: FieldSet_def entries_def)
qed

lemma FieldSet_grow:
  assumes "valid_ref w r" and "maps w' = maps w @ ms"
  shows "FieldSet w' r = FieldSet w r"
  using entries_grow[OF assms] by (simp add: FieldSet_def)

lemma FieldSet_same_maps:
  assumes "maps w' = maps w"
  shows "FieldSet w' r = FieldSet w r"
proof -
  have "entries w' r = entries w r"
    using assms by (cases r) (simp_all add: entries_def)
  then show ?thesis by (simp add: FieldSet_def)
qed

lemma FieldSet_last:
  "FieldSet (w\<lparr>maps := ms @ [m]\<rparr>) (Some (length ms)) = DAList.lookup m"
  by (simp add: FieldSet_def entries_def at_def DAList.lookup.rep_eq)

lemma observe_eq:
  "deref w l = Some e \<Longrightarrow>
     observe w l = Some (logger e, level e, FieldSet w (fields_map e), prefix e)"
  by (simp add: observe_def)

lemma observe_calls: "observe (w\<lparr>calls := c\<rparr>) p = observe w p"
proof -
  have "FieldSet (w\<lparr>calls := c\<rparr>) r = FieldSet w r" for r
    by (rule FieldSet_same_maps) simp
  then show ?thesis by (simp add: observe_def deref_calls)
qed

subsection \<open>The copy loop\<close>

lemma range_copy_last:
  "range_copy kvs (Some (length ms)) (w\<lparr>maps := ms @ [m]\<rparr>) =
     Inr (w\<lparr>maps := ms @ [fold (\<lambda>(k, v). DAList.update k v) kvs m]\<rparr>)"
  by (induction kvs arbitrary: m) (auto simp: mapassign_def)

lemma lookup_fold_update_at:
  "distinct (map fst kvs) \<Longrightarrow>
     DAList.lookup (fold (\<lambda>(k, v). DAList.update k v) kvs m) x =
       (case map_of kvs x of None \<Rightarrow> DAList.lookup m x | Some v \<Rightarrow> Some v)"
proof (induction kvs arbitrary: m)
  case Nil
  then show ?case by simp
next
  case (Cons kv kvs)
  obtain k v where kv: "kv = (k, v)" by (cases kv)
  from Cons.prems kv have d: "distinct (map fst kvs)" and nk: "k \<notin> fst ` set kvs" by auto
  have none: "map_of kvs k = None" using nk by (simp add: map_of_eq_None_iff)
  show ?case
    using Cons.IH[OF d, of "DAList.update k v m"] kv none
    by (auto simp: DAList.lookup_update split: option.splits)
qed

lemma lookup_fold_update:
  "distinct (map fst kvs) \<Longrightarrow>
     DAList.lookup (fold (\<lambda>(k, v). DAList.update k v) kvs m) = DAList.lookup m ++ map_of kvs"
  by (rule ext) (simp add: lookup_fold_update_at map_add_def)

text \<open>
  The order in which a \<^verbatim>\<open>range\<close> loop visits a map is not fixed. The content the copy
  loop leaves does not depend on it: any two orders of the same entries give the same
  mapping.
\<close>

lemma range_order_irrelevant:
  assumes "distinct (map fst kvs)" and "distinct (map fst kvs')" and "set kvs' = set kvs"
  shows "DAList.lookup (fold (\<lambda>(k, v). DAList.update k v) kvs' m) =
         DAList.lookup (fold (\<lambda>(k, v). DAList.update k v) kvs m)"
proof -
  have "map_of kvs' = map_of kvs"
    using assms by (simp add: map_of_inject_set)
  then show ?thesis
    by (simp add: lookup_fold_update assms(1,2))
qed

subsection \<open>The steps of the operations\<close>

lemma Info_V_step:
  "deref w l = Some e \<Longrightarrow>
     Info_V w l lv = Inr (w\<lparr>infos := infos w @ [e\<lparr>level := lv\<rparr>]\<rparr>, InfoAt (length (infos w)))"
  by (simp add: Info_V_def new_Info_def)

lemma Info_WithPrefix_step:
  "deref w l = Some e \<Longrightarrow>
     Info_WithPrefix w l p =
       Inr (w\<lparr>infos := infos w @ [e\<lparr>prefix := prefix e @ p\<rparr>]\<rparr>, InfoAt (length (infos w)))"
  by (simp add: Info_WithPrefix_def new_Info_def)

lemma Info_WithFields_step:
  assumes "deref w l = Some e" "valid_ref w (fields_map e)" "valid_ref w flds"
  shows "\<exists>m. Info_WithFields w l flds =
             Inr (w\<lparr>maps := maps w @ [m],
                    infos := infos w @ [e\<lparr>fields_map := Some (length (maps w))\<rparr>]\<rparr>,
                  InfoAt (length (infos w)))
           \<and> DAList.lookup m = FieldSet w (fields_map e) ++ FieldSet w flds"
proof -
  obtain own where own: "entries w (fields_map e) = Inr own" "distinct (map fst own)"
      "FieldSet w (fields_map e) = map_of own"
    using entries_valid[OF assms(2)] by blast
  obtain given where given: "entries w flds = Inr given" "distinct (map fst given)"
      "FieldSet w flds = map_of given"
    using entries_valid[OF assms(3)] by blast
  let ?upd = "\<lambda>(k, v). DAList.update k v"
  let ?w1 = "w\<lparr>maps := maps w @ [DAList.empty]\<rparr>"
  let ?m1 = "fold ?upd own DAList.empty"
  let ?w2 = "w\<lparr>maps := maps w @ [?m1]\<rparr>"
  let ?m2 = "fold ?upd given ?m1"
  have e1: "entries ?w1 (fields_map e) = Inr own"
    using entries_grow[OF assms(2), of ?w1 "[DAList.empty]"] own(1) by simp
  have r1: "range_copy own (Some (length (maps w))) ?w1 = Inr ?w2"
    by (rule range_copy_last)
  have e2: "entries ?w2 flds = Inr given"
    using entries_grow[OF assms(3), of ?w2 "[?m1]"] given(1) by simp
  have r2: "range_copy given (Some (length (maps w))) ?w2 =
              Inr (w\<lparr>maps := maps w @ [?m2]\<rparr>)"
    by (rule range_copy_last)
  have res: "Info_WithFields w l flds =
      Inr (w\<lparr>maps := maps w @ [?m2],
             infos := infos w @ [e\<lparr>fields_map := Some (length (maps w))\<rparr>]\<rparr>,
           InfoAt (length (infos w)))"
    using assms(1) e1 r1 e2 r2 by (simp add: Info_WithFields_def make_map_def new_Info_def)
  have "DAList.lookup ?m2 = (DAList.lookup DAList.empty ++ map_of own) ++ map_of given"
    by (simp add: lookup_fold_update own(2) given(2))
  moreover have "DAList.lookup (DAList.empty :: (string, val) alist) = Map.empty"
    by (rule ext) simp
  ultimately have "DAList.lookup ?m2 = FieldSet w (fields_map e) ++ FieldSet w flds"
    by (simp add: own(3) given(3))
  with res show ?thesis by blast
qed

lemma Info_WithFields_effect:
  assumes "deref w l = Some e" "valid_ref w (fields_map e)" "valid_ref w F"
  shows "\<exists>w' m. Info_WithFields w l F = Inr (w', InfoAt (length (infos w))) \<and>
           infos w' = infos w @ [e\<lparr>fields_map := Some (length (maps w))\<rparr>] \<and>
           logs w' = logs w \<and> calls w' = calls w \<and> maps w' = maps w @ [m] \<and>
           FieldSet w' (Some (length (maps w))) = FieldSet w (fields_map e) ++ FieldSet w F"
proof -
  from Info_WithFields_step[OF assms] obtain m where
    r: "Info_WithFields w l F =
          Inr (w\<lparr>maps := maps w @ [m],
                 infos := infos w @ [e\<lparr>fields_map := Some (length (maps w))\<rparr>]\<rparr>,
               InfoAt (length (infos w)))"
    and m: "DAList.lookup m = FieldSet w (fields_map e) ++ FieldSet w F"
    by blast
  let ?w' = "w\<lparr>maps := maps w @ [m],
               infos := infos w @ [e\<lparr>fields_map := Some (length (maps w))\<rparr>]\<rparr>"
  have "FieldSet ?w' (Some (length (maps w))) =
          FieldSet (w\<lparr>maps := maps w @ [m]\<rparr>) (Some (length (maps w)))"
    by (rule FieldSet_same_maps) simp
  with m have "FieldSet ?w' (Some (length (maps w))) = FieldSet w (fields_map e) ++ FieldSet w F"
    by (simp add: FieldSet_last)
  with r show ?thesis
    by (intro exI[of _ ?w'] exI[of _ m]) simp
qed

lemma Info_Info_step:
  "deref w l = Some e \<Longrightarrow>
     Info_Info w l args =
       Inr (w\<lparr>calls := calls w @
              [LogInfo (logger e) (level e) (fields_map e)
                 (prefix e @ join_spaces (map printArg args))]\<rparr>)"
  by (simp add: Info_Info_def Let_def Sprintln_join slice_to_def)

lemma Info_Infof_step:
  "deref w l = Some e \<Longrightarrow>
     Info_Infof Sprintf w l format args =
       Inr (w\<lparr>calls := calls w @
              [LogInfo (logger e) (level e) (fields_map e) (prefix e @ Sprintf format args)]\<rparr>)"
  by (simp add: Info_Infof_def)

lemma Info_delivers_eq:
  assumes "deref w l = Some e"
  shows "Info_delivers w l args =
           Some [InfoDelivery (logger e) (level e) (FieldSet w (fields_map e))
                   (prefix e @ join_spaces (map printArg args))]"
proof -
  have "FieldSet (w\<lparr>calls := calls w @
              [LogInfo (logger e) (level e) (fields_map e)
                 (prefix e @ join_spaces (map printArg args))]\<rparr>) (fields_map e) =
        FieldSet w (fields_map e)"
    by (rule FieldSet_same_maps) simp
  then show ?thesis
    using Info_Info_step[OF assms, of args] by (simp add: Info_delivers_def)
qed

lemma Infof_delivers_eq:
  assumes "deref w l = Some e"
  shows "Infof_delivers Sprintf w l format args =
           Some [InfoDelivery (logger e) (level e) (FieldSet w (fields_map e))
                   (prefix e @ Sprintf format args)]"
proof -
  have "FieldSet (w\<lparr>calls := calls w @
              [LogInfo (logger e) (level e) (fields_map e)
                 (prefix e @ Sprintf format args)]\<rparr>) (fields_map e) =
        FieldSet w (fields_map e)"
    by (rule FieldSet_same_maps) simp
  then show ?thesis
    using Info_Infof_step[OF assms, of Sprintf format args] by (simp add: Infof_delivers_def)
qed

lemma receiver_kept:
  assumes "deref w l = Some e" and "deref w' l = Some e"
    and "FieldSet w' (fields_map e) = FieldSet w (fields_map e)"
  shows "observe w' l = observe w l \<and> Info_delivers w' l args = Info_delivers w l args"
  using assms by (simp add: observe_eq Info_delivers_eq)

lemma Log_Error_step:
  "at (logs w) a = Some L \<Longrightarrow>
     Log_Error w a args =
       Inr (w\<lparr>calls := calls w @
              [LogError (err L) (fields_map (info L))
                 (prefix (info L) @ join_spaces (map printArg args))]\<rparr>)"
  by (simp add: Log_Error_def Let_def Sprintln_join slice_to_def)

lemma Log_Errorf_step:
  "at (logs w) a = Some L \<Longrightarrow>
     Log_Errorf Sprintf w a format args =
       Inr (w\<lparr>calls := calls w @
              [LogError (err L) (fields_map (info L))
                 (prefix (info L) @ Sprintf format args)]\<rparr>)"
  by (simp add: Log_Errorf_def)

lemma Log_WithPrefix_step:
  assumes "at (logs w) a = Some L"
  shows "Log_WithPrefix w a P =
           Inr (w\<lparr>infos := infos w @ [(info L)\<lparr>prefix := prefix (info L) @ P\<rparr>],
                  logs := logs w @
                    [\<lparr>info = (info L)\<lparr>prefix := prefix (info L) @ P\<rparr>, err = err L\<rparr>]\<rparr>,
                length (logs w))"
proof -
  let ?e = "(info L)\<lparr>prefix := prefix (info L) @ P\<rparr>"
  let ?w1 = "w\<lparr>infos := infos w @ [?e]\<rparr>"
  have d: "deref w (InfoOf a) = Some (info L)"
    using assms by simp
  have s: "Info_WithPrefix w (InfoOf a) P = Inr (?w1, InfoAt (length (infos w)))"
    by (rule Info_WithPrefix_step[OF d])
  have d1: "deref ?w1 (InfoAt (length (infos w))) = Some ?e"
    by (rule deref_last) simp
  have l1: "at (logs ?w1) a = Some L"
    using assms by simp
  show ?thesis
    unfolding Log_WithPrefix_def s using d1 l1 by (simp add: new_Log_def)
qed

lemma Log_WithFields_effect:
  assumes "at (logs w) a = Some L" "valid_ref w (fields_map (info L))" "valid_ref w F"
  shows "\<exists>w'. Log_WithFields w a F = Inr (w', length (logs w)) \<and> calls w' = calls w \<and>
           logs w' = logs w @
             [\<lparr>info = (info L)\<lparr>fields_map := Some (length (maps w))\<rparr>, err = err L\<rparr>] \<and>
           FieldSet w' (Some (length (maps w))) =
             FieldSet w (fields_map (info L)) ++ FieldSet w F"
proof -
  let ?e = "(info L)\<lparr>fields_map := Some (length (maps w))\<rparr>"
  let ?q = "InfoAt (length (infos w))"
  have d: "deref w (InfoOf a) = Some (info L)"
    using assms(1) by simp
  from Info_WithFields_effect[OF d assms(2,3)] obtain w1 where
    s: "Info_WithFields w (InfoOf a) F = Inr (w1, ?q)"
    and i: "infos w1 = infos w @ [?e]" and g: "logs w1 = logs w" and c: "calls w1 = calls w"
    and f: "FieldSet w1 (Some (length (maps w))) =
              FieldSet w (fields_map (info L)) ++ FieldSet w F"
    by blast
  have d1: "deref w1 ?q = Some ?e"
    by (rule deref_last[OF i])
  have l1: "at (logs w1) a = Some L"
    using assms(1) g by simp
  let ?w' = "w1\<lparr>logs := logs w1 @ [\<lparr>info = ?e, err = err L\<rparr>]\<rparr>"
  have r: "Log_WithFields w a F = Inr (?w', length (logs w))"
    unfolding Log_WithFields_def s using d1 l1 g by (simp add: new_Log_def)
  have "FieldSet ?w' (Some (length (maps w))) = FieldSet w1 (Some (length (maps w)))"
    by (rule FieldSet_same_maps) simp
  with f r c g show ?thesis
    by (intro exI[of _ ?w']) simp
qed

subsection \<open>The example heap\<close>

lemma ex_world_root: "deref ex_world (InfoAt 0) = Some ex_root"
  by (simp add: ex_world_def at_def)

lemma ex_world_info: "deref ex_world (InfoAt 1) = Some ex_info"
  by (simp add: ex_world_def at_def)

lemma ex_world_log: "at (logs ex_world) 0 = Some ex_log"
  by (simp add: ex_world_def at_def)

lemma ex_world_valid: "valid_ref ex_world (Some 0)" "valid_ref ex_world (Some 1)"
  "valid_ref ex_world (Some 2)" "valid_ref ex_world (Some 3)" "valid_ref ex_world None"
  by (simp_all add: valid_ref_def ex_world_def ex_maps_def)

lemma ex_world_FieldSet:
  "FieldSet ex_world (Some 0) = [''k'' \<mapsto> VInt 1]"
  "FieldSet ex_world (Some 1) = [''k'' \<mapsto> VInt 2, ''j'' \<mapsto> VString ''x'']"
  "FieldSet ex_world (Some (Suc 0)) = [''k'' \<mapsto> VInt 2, ''j'' \<mapsto> VString ''x'']"
  "FieldSet ex_world (Some 2) = [''j'' \<mapsto> VBool True]"
  "FieldSet ex_world (Some 3) = Map.empty"
  "FieldSet ex_world None = Map.empty"
  by (simp_all add: FieldSet_def entries_def at_def ex_world_def ex_maps_def
        DAList.update.rep_eq DAList.empty.rep_eq)

section \<open>The claims\<close>

text \<open>
  C3. For every emitter and every argument sequence, \<open>Info\<close> returns having made exactly
  one call, \<open>LogInfo\<close>, on the emitter's backend, with the emitter's level, its map of
  fields (so the backend is handed the emitter's FieldSet), and as message the emitter's
  prefix followed by the default formats of the arguments joined by single spaces: the
  newline that \<^verbatim>\<open>Sprintln\<close> appends is cut off.
  Nothing else of the heap changes. In particular \<^verbatim>\<open>Info("a", "b")\<close> on an emitter with
  the empty prefix forwards the message \<^verbatim>\<open>a b\<close>.
\<close>

theorem Info_forwards_joined_message:
  assumes "deref w l = Some e"
  shows "Info_Info w l args =
           Inr (w\<lparr>calls := calls w @
                  [LogInfo (logger e) (level e) (fields_map e)
                     (prefix e @ join_spaces (map printArg args))]\<rparr>)
         \<and> Info_delivers w l args =
             Some [InfoDelivery (logger e) (level e) (FieldSet w (fields_map e))
                     (prefix e @ join_spaces (map printArg args))]
         \<and> (prefix e = [] \<longrightarrow>
              Info_Info w l [VString ''a'', VString ''b''] =
                Inr (w\<lparr>calls := calls w @
                       [LogInfo (logger e) (level e) (fields_map e) ''a b'']\<rparr>))"
proof -
  have "Info_Info w l [VString ''a'', VString ''b''] =
          Inr (w\<lparr>calls := calls w @
                 [LogInfo (logger e) (level e) (fields_map e) (prefix e @ ''a b'')]\<rparr>)"
    using Info_Info_step[OF assms, of "[VString ''a'', VString ''b'']"] by simp
  then show ?thesis
    using Info_Info_step[OF assms, of args] Info_delivers_eq[OF assms, of args] by simp
qed

theorem Info_forwards_joined_message_witness:
  "deref ex_world (InfoAt 0) = Some ex_root \<and> prefix ex_root = [] \<and>
   Info_Info ex_world (InfoAt 0) [VString ''a'', VString ''b''] =
     Inr (ex_world\<lparr>calls := [LogInfo 7 0 None ''a b'']\<rparr>) \<and>
   Info_Info ex_world (InfoAt 1) [VString ''n ='', VInt (-12), VBool True, VNil] =
     Inr (ex_world\<lparr>calls := [LogInfo 7 2 (Some 0) ''p: n = -12 true <nil>'']\<rparr>)"
proof -
  note d0 = ex_world_root and d1 = ex_world_info
  have p0: "prefix ex_root = []"
    by (simp add: ex_root_def)
  have c: "calls ex_world = []"
    by (simp add: ex_world_def)
  have n: "fmtInteger (-12) = ''-12''"
    by (simp add: fmtInteger_def fmt_nat.simps)
  from Info_forwards_joined_message[OF d0, of "[]"] p0 c
  have a: "Info_Info ex_world (InfoAt 0) [VString ''a'', VString ''b''] =
     Inr (ex_world\<lparr>calls := [LogInfo 7 0 None ''a b'']\<rparr>)"
    by (simp add: ex_root_def)
  from Info_forwards_joined_message[OF d1, of "[VString ''n ='', VInt (-12), VBool True, VNil]"] c n
  have b: "Info_Info ex_world (InfoAt 1) [VString ''n ='', VInt (-12), VBool True, VNil] =
     Inr (ex_world\<lparr>calls := [LogInfo 7 2 (Some 0) ''p: n = -12 true <nil>'']\<rparr>)"
    by (simp add: ex_info_def)
  from d0 p0 a b show ?thesis by simp
qed

text \<open>
  C9. For every argument sequence, the empty one too, the result of \<^verbatim>\<open>Sprintln\<close> is not
  empty and ends in a newline, so the slice \<^verbatim>\<open>s[:len(s)-1]\<close> is in bounds and cuts
  exactly that newline; \<open>Info\<close> and \<open>Log.Error\<close> never panic with a slice out of bounds,
  whatever the heap and the receiver. \<open>Info\<close> with no argument on an emitter succeeds and
  forwards exactly the emitter's prefix.
\<close>

theorem println_slice_in_bounds:
  "Sprintln args \<noteq> [] \<and> last (Sprintln args) = newline \<and>
   slice_to (Sprintln args) (int (length (Sprintln args)) - 1) = Inr (butlast (Sprintln args)) \<and>
   Info_Info w l args \<noteq> Inl SliceBoundsOutOfRange \<and>
   Log_Error w a args \<noteq> Inl SliceBoundsOutOfRange \<and>
   (deref w l = Some e \<longrightarrow>
      Info_Info w l [] =
        Inr (w\<lparr>calls := calls w @ [LogInfo (logger e) (level e) (fields_map e) (prefix e)]\<rparr>))"
proof -
  have s: "Sprintln args = join_spaces (map printArg args) @ [newline]"
    by (rule Sprintln_join)
  have sl: "slice_to (Sprintln args) (int (length (Sprintln args)) - 1) =
              Inr (butlast (Sprintln args))"
    unfolding s using slice_to_drop_last[of "join_spaces (map printArg args)" newline] by simp
  have i: "Info_Info w l args \<noteq> Inl SliceBoundsOutOfRange"
    using sl by (simp add: Info_Info_def Let_def split: option.splits)
  have le: "Log_Error w a args \<noteq> Inl SliceBoundsOutOfRange"
    using sl by (simp add: Log_Error_def Let_def split: option.splits)
  have z: "deref w l = Some e \<longrightarrow>
      Info_Info w l [] =
        Inr (w\<lparr>calls := calls w @ [LogInfo (logger e) (level e) (fields_map e) (prefix e)]\<rparr>)"
    using Info_Info_step[of w l e "[]"] by simp
  from s sl i le z show ?thesis by simp
qed

theorem println_slice_in_bounds_witness:
  "deref ex_world (InfoAt 1) = Some ex_info \<and>
   Info_Info ex_world (InfoAt 1) [] = Inr (ex_world\<lparr>calls := [LogInfo 7 2 (Some 0) ''p: '']\<rparr>) \<and>
   Sprintln [] = [newline] \<and> slice_to (Sprintln []) (int (length (Sprintln [])) - 1) = Inr []"
proof -
  note d1 = ex_world_info
  have c: "calls ex_world = []"
    by (simp add: ex_world_def)
  have s: "Sprintln [] = [newline]"
    by (simp add: Sprintln_def)
  from println_slice_in_bounds[of "[]" ex_world "InfoAt 1" 0 ex_info] d1 c s
  show ?thesis by (simp add: ex_info_def)
qed

text \<open>
  C4. For every \<open>Log\<close>, \<open>Error\<close> returns having made exactly one call, \<open>LogError\<close>, on the
  \<open>ErrorLogger\<close> backend, with the map of fields of the embedded \<open>Info\<close> and as message
  the prefix of the embedded \<open>Info\<close> followed by the arguments formatted as by
  \<^verbatim>\<open>Sprintln\<close>, the newline cut off. The call carries no level. A level set through \<open>V\<close>
  before does not change what is forwarded: \<open>V\<close> leaves the \<open>Log\<close> as it is, and the same
  call is made whatever level the embedded \<open>Info\<close> holds.
\<close>

theorem Log_Error_forwards:
  assumes "at (logs w) a = Some L"
  shows "Log_Error w a args =
           Inr (w\<lparr>calls := calls w @
                  [LogError (err L) (fields_map (info L))
                     (prefix (info L) @ join_spaces (map printArg args))]\<rparr>)
         \<and> received w
               (LogError (err L) (fields_map (info L))
                  (prefix (info L) @ join_spaces (map printArg args))) =
             ErrorDelivery (err L) (FieldSet w (fields_map (info L)))
               (prefix (info L) @ join_spaces (map printArg args))
         \<and> (\<exists>w' q. Log_V w a lv = Inr (w', q) \<and>
               FieldSet w' (fields_map (info L)) = FieldSet w (fields_map (info L)) \<and>
               Log_Error w' a args =
                 Inr (w'\<lparr>calls := calls w' @
                        [LogError (err L) (fields_map (info L))
                           (prefix (info L) @ join_spaces (map printArg args))]\<rparr>))
         \<and> Log_Error (w\<lparr>logs := (logs w)[a := L\<lparr>info := (info L)\<lparr>level := lv\<rparr>\<rparr>]\<rparr>) a args =
               Inr (w\<lparr>logs := (logs w)[a := L\<lparr>info := (info L)\<lparr>level := lv\<rparr>\<rparr>],
                      calls := calls w @
                        [LogError (err L) (fields_map (info L))
                           (prefix (info L) @ join_spaces (map printArg args))]\<rparr>)"
proof -
  let ?c = "LogError (err L) (fields_map (info L))
              (prefix (info L) @ join_spaces (map printArg args))"
  have first: "Log_Error w a args = Inr (w\<lparr>calls := calls w @ [?c]\<rparr>)"
    by (rule Log_Error_step[OF assms])
  let ?w' = "w\<lparr>infos := infos w @ [(info L)\<lparr>level := lv\<rparr>]\<rparr>"
  have d: "deref w (InfoOf a) = Some (info L)"
    using assms by simp
  have v: "Log_V w a lv = Inr (?w', InfoAt (length (infos w)))"
    unfolding Log_V_def by (rule Info_V_step[OF d])
  have "at (logs ?w') a = Some L"
    using assms by simp
  then have after: "Log_Error ?w' a args = Inr (?w'\<lparr>calls := calls ?w' @ [?c]\<rparr>)"
    by (rule Log_Error_step)
  have fs: "FieldSet ?w' (fields_map (info L)) = FieldSet w (fields_map (info L))"
    by (rule FieldSet_same_maps) simp
  let ?L' = "L\<lparr>info := (info L)\<lparr>level := lv\<rparr>\<rparr>"
  let ?w2 = "w\<lparr>logs := (logs w)[a := ?L']\<rparr>"
  have "at (logs ?w2) a = Some ?L'"
    using at_update_same[OF assms] by simp
  from Log_Error_step[OF this, of args]
  have third: "Log_Error ?w2 a args = Inr (?w2\<lparr>calls := calls w @ [?c]\<rparr>)"
    by simp
  from first v fs after third show ?thesis by simp
qed

theorem Log_Error_forwards_witness:
  "at (logs ex_world) 0 = Some ex_log \<and>
   Log_Error ex_world 0 [VString ''x''] =
     Inr (ex_world\<lparr>calls := [LogError 9 (Some 0) ''q: x'']\<rparr>)"
proof -
  have c: "calls ex_world = []"
    by (simp add: ex_world_def)
  from Log_Error_forwards[OF ex_world_log, of "[VString ''x'']" 5] c
  have "Log_Error ex_world 0 [VString ''x''] =
     Inr (ex_world\<lparr>calls := [LogError 9 (Some 0) ''q: x'']\<rparr>)"
    by (simp add: ex_log_def)
  with ex_world_log show ?thesis by simp
qed

text \<open>
  C8. For every \<open>Log\<close> and level, \<open>Log.V\<close> returns what \<open>V\<close> returns on the embedded
  \<open>Info\<close>: a pointer to a new \<open>Info\<close> on the heap with the given level and the backend,
  map and prefix of the embedded \<open>Info\<close>. No \<open>Log\<close> is made, and the \<open>Info\<close> returned
  has no \<open>ErrorLogger\<close>.
\<close>

theorem Log_V_returns_Info:
  assumes "at (logs w) a = Some L"
  shows "Log_V w a lv = Info_V w (InfoOf a) lv \<and>
         Log_V w a lv =
           Inr (w\<lparr>infos := infos w @
                  [\<lparr>logger = logger (info L), level = lv, fields_map = fields_map (info L),
                    prefix = prefix (info L)\<rparr>]\<rparr>,
                InfoAt (length (infos w))) \<and>
         (\<exists>w' n. Log_V w a lv = Inr (w', InfoAt n) \<and> logs w' = logs w \<and>
            at (infos w) n = None \<and>
            observe w' (InfoAt n) =
              Some (logger (info L), lv, FieldSet w (fields_map (info L)), prefix (info L)))"
proof -
  have d: "deref w (InfoOf a) = Some (info L)"
    using assms by simp
  let ?e = "\<lparr>logger = logger (info L), level = lv, fields_map = fields_map (info L),
             prefix = prefix (info L)\<rparr>"
  let ?w' = "w\<lparr>infos := infos w @ [?e]\<rparr>"
  have v: "Log_V w a lv = Inr (?w', InfoAt (length (infos w)))"
    using Info_V_step[OF d, of lv] by (simp add: Log_V_def)
  have fs: "FieldSet ?w' (fields_map (info L)) = FieldSet w (fields_map (info L))"
    by (rule FieldSet_same_maps) simp
  have ob: "observe ?w' (InfoAt (length (infos w))) =
          Some (logger (info L), lv, FieldSet w (fields_map (info L)), prefix (info L))"
    using fs by (simp add: observe_def at_append)
  have fresh: "at (infos w) (length (infos w)) = None"
    by (simp add: at_def)
  have "\<exists>w' n. Log_V w a lv = Inr (w', InfoAt n) \<and> logs w' = logs w \<and>
            at (infos w) n = None \<and>
            observe w' (InfoAt n) =
              Some (logger (info L), lv, FieldSet w (fields_map (info L)), prefix (info L))"
    using v ob fresh by (intro exI[of _ ?w'] exI[of _ "length (infos w)"]) simp
  with v show ?thesis by (simp add: Log_V_def)
qed

theorem Log_V_returns_Info_witness:
  "at (logs ex_world) 0 = Some ex_log \<and>
   Log_V ex_world 0 3 =
     Inr (ex_world\<lparr>infos := [ex_root, ex_info,
            \<lparr>logger = 7, level = 3, fields_map = Some 0, prefix = ''q: ''\<rparr>]\<rparr>, InfoAt 2)"
proof -
  have i: "infos ex_world = [ex_root, ex_info]"
    by (simp add: ex_world_def)
  from Log_V_returns_Info[OF ex_world_log, of 3, THEN conjunct2, THEN conjunct1] i
  have "Log_V ex_world 0 3 =
     Inr (ex_world\<lparr>infos := [ex_root, ex_info,
            \<lparr>logger = 7, level = 3, fields_map = Some 0, prefix = ''q: ''\<rparr>]\<rparr>, InfoAt 2)"
    by (simp add: ex_log_def)
  with ex_world_log show ?thesis by simp
qed

text \<open>
  C2. For every emitter and strings \<open>P\<close> and \<open>Q\<close>, \<open>WithPrefix P\<close> and then \<open>WithPrefix Q\<close>
  on the result give an emitter whose prefix is the receiver's prefix, then \<open>P\<close>, then
  \<open>Q\<close>; this is the prefix of the messages it forwards. The receiver is the same
  after each of the two calls, its prefix included.
\<close>

theorem WithPrefix_WithPrefix_concat:
  assumes "deref w l = Some e"
  shows "\<exists>w1 l1 w2 l2.
           Info_WithPrefix w l P = Inr (w1, l1) \<and> Info_WithPrefix w1 l1 Q = Inr (w2, l2) \<and>
           deref w2 l2 = Some (e\<lparr>prefix := prefix e @ P @ Q\<rparr>) \<and>
           Info_Info w2 l2 args =
             Inr (w2\<lparr>calls := calls w2 @
                    [LogInfo (logger e) (level e) (fields_map e)
                       (prefix e @ P @ Q @ join_spaces (map printArg args))]\<rparr>) \<and>
           deref w1 l = Some e \<and> deref w2 l = Some e"
proof -
  let ?e1 = "e\<lparr>prefix := prefix e @ P\<rparr>"
  let ?w1 = "w\<lparr>infos := infos w @ [?e1]\<rparr>"
  let ?l1 = "InfoAt (length (infos w))"
  let ?e2 = "e\<lparr>prefix := prefix e @ P @ Q\<rparr>"
  let ?w2 = "?w1\<lparr>infos := infos ?w1 @ [?e2]\<rparr>"
  let ?l2 = "InfoAt (length (infos ?w1))"
  have s1: "Info_WithPrefix w l P = Inr (?w1, ?l1)"
    by (rule Info_WithPrefix_step[OF assms])
  have d1: "deref ?w1 ?l1 = Some ?e1"
    by (simp add: at_append)
  have s2: "Info_WithPrefix ?w1 ?l1 Q = Inr (?w2, ?l2)"
    using Info_WithPrefix_step[OF d1, of Q] by simp
  have d2: "deref ?w2 ?l2 = Some ?e2"
    by (simp add: at_def nth_append)
  have i: "Info_Info ?w2 ?l2 args =
             Inr (?w2\<lparr>calls := calls ?w2 @
                    [LogInfo (logger e) (level e) (fields_map e)
                       (prefix e @ P @ Q @ join_spaces (map printArg args))]\<rparr>)"
    using Info_Info_step[OF d2, of args] by simp
  have k1: "deref ?w1 l = Some e"
    by (rule deref_old[OF assms, of _ "[?e1]"]) simp_all
  have k2: "deref ?w2 l = Some e"
    by (rule deref_old[OF assms, of _ "[?e1, ?e2]"]) simp_all
  from s1 s2 d2 i k1 k2 show ?thesis by blast
qed

theorem WithPrefix_WithPrefix_concat_witness:
  "deref ex_world (InfoAt 1) = Some ex_info \<and>
   (\<exists>w1 l1 w2 l2.
      Info_WithPrefix ex_world (InfoAt 1) ''a/'' = Inr (w1, l1) \<and>
      Info_WithPrefix w1 l1 ''b/'' = Inr (w2, l2) \<and>
      map_option prefix (deref w2 l2) = Some ''p: a/b/'' \<and>
      map_option prefix (deref w2 (InfoAt 1)) = Some ''p: '')"
proof -
  from WithPrefix_WithPrefix_concat[OF ex_world_info, of "''a/''" "''b/''" "[]"]
  obtain w1 l1 w2 l2 where
    "Info_WithPrefix ex_world (InfoAt 1) ''a/'' = Inr (w1, l1)"
    "Info_WithPrefix w1 l1 ''b/'' = Inr (w2, l2)"
    "deref w2 l2 = Some (ex_info\<lparr>prefix := prefix ex_info @ ''a/'' @ ''b/''\<rparr>)"
    "deref w2 (InfoAt 1) = Some ex_info"
    by blast
  then have "Info_WithPrefix ex_world (InfoAt 1) ''a/'' = Inr (w1, l1) \<and>
      Info_WithPrefix w1 l1 ''b/'' = Inr (w2, l2) \<and>
      map_option prefix (deref w2 l2) = Some ''p: a/b/'' \<and>
      map_option prefix (deref w2 (InfoAt 1)) = Some ''p: ''"
    by (simp add: ex_info_def)
  then show ?thesis using ex_world_info by blast
qed

text \<open>
  C1. For every emitter and every two maps \<open>A\<close> and \<open>B\<close>, \<open>WithFields A\<close> and then
  \<open>WithFields B\<close> on the result give an emitter whose FieldSet is the receiver's, merged
  with \<open>A\<close>, merged with \<open>B\<close>: at every key the value of \<open>B\<close> if \<open>B\<close> has the key, else
  that of \<open>A\<close> if \<open>A\<close> has it, else the receiver's. After each of the two calls the
  receiver is the same struct, and the map it refers to has the content it had.
\<close>

theorem WithFields_WithFields_merge:
  assumes "deref w l = Some e" "valid_ref w (fields_map e)" "valid_ref w A" "valid_ref w B"
  shows "\<exists>w1 l1 w2 l2 e2.
           Info_WithFields w l A = Inr (w1, l1) \<and> Info_WithFields w1 l1 B = Inr (w2, l2) \<and>
           deref w2 l2 = Some e2 \<and>
           FieldSet w2 (fields_map e2) = (FieldSet w (fields_map e) ++ FieldSet w A) ++ FieldSet w B \<and>
           (\<forall>k. FieldSet w2 (fields_map e2) k =
              (case FieldSet w B k of
                 Some v \<Rightarrow> Some v
               | None \<Rightarrow>
                   (case FieldSet w A k of
                      Some v \<Rightarrow> Some v
                    | None \<Rightarrow> FieldSet w (fields_map e) k))) \<and>
           deref w1 l = Some e \<and> FieldSet w1 (fields_map e) = FieldSet w (fields_map e) \<and>
           deref w2 l = Some e \<and> FieldSet w2 (fields_map e) = FieldSet w (fields_map e)"
proof -
  let ?l1 = "InfoAt (length (infos w))"
  let ?e1 = "e\<lparr>fields_map := Some (length (maps w))\<rparr>"
  from Info_WithFields_effect[OF assms(1,2,3)] obtain w1 m1 where
    s1: "Info_WithFields w l A = Inr (w1, ?l1)"
    and i1: "infos w1 = infos w @ [?e1]" and g1: "logs w1 = logs w"
    and m1: "maps w1 = maps w @ [m1]"
    and f1: "FieldSet w1 (Some (length (maps w))) = FieldSet w (fields_map e) ++ FieldSet w A"
    by blast
  have d1: "deref w1 ?l1 = Some ?e1"
    by (rule deref_last[OF i1])
  have v1: "valid_ref w1 (fields_map ?e1)"
    using m1 by (simp add: valid_ref_def)
  have vB: "valid_ref w1 B"
    by (rule valid_ref_grow[OF assms(4) m1])
  let ?l2 = "InfoAt (length (infos w1))"
  let ?e2 = "?e1\<lparr>fields_map := Some (length (maps w1))\<rparr>"
  from Info_WithFields_effect[OF d1 v1 vB] obtain w2 m2 where
    s2: "Info_WithFields w1 ?l1 B = Inr (w2, ?l2)"
    and i2: "infos w2 = infos w1 @ [?e2]" and g2: "logs w2 = logs w1"
    and m2: "maps w2 = maps w1 @ [m2]"
    and f2: "FieldSet w2 (Some (length (maps w1))) =
               FieldSet w1 (fields_map ?e1) ++ FieldSet w1 B"
    by blast
  have d2: "deref w2 ?l2 = Some ?e2"
    by (rule deref_last[OF i2])
  have B1: "FieldSet w1 B = FieldSet w B"
    by (rule FieldSet_grow[OF assms(4) m1])
  have merged: "FieldSet w2 (fields_map ?e2) =
      (FieldSet w (fields_map e) ++ FieldSet w A) ++ FieldSet w B"
    using f2 f1 B1 by simp
  have keys: "\<forall>k. FieldSet w2 (fields_map ?e2) k =
              (case FieldSet w B k of
                 Some v \<Rightarrow> Some v
               | None \<Rightarrow>
                   (case FieldSet w A k of
                      Some v \<Rightarrow> Some v
                    | None \<Rightarrow> FieldSet w (fields_map e) k))"
    unfolding merged by (simp add: map_add_def split: option.splits)
  have k1: "deref w1 l = Some e"
    by (rule deref_old[OF assms(1) g1 i1])
  have k2: "deref w2 l = Some e"
    by (rule deref_old[OF k1 g2 i2])
  have fe1: "FieldSet w1 (fields_map e) = FieldSet w (fields_map e)"
    by (rule FieldSet_grow[OF assms(2) m1])
  have "valid_ref w1 (fields_map e)"
    by (rule valid_ref_grow[OF assms(2) m1])
  then have "FieldSet w2 (fields_map e) = FieldSet w1 (fields_map e)"
    using m2 by (rule FieldSet_grow)
  with fe1 have fe2: "FieldSet w2 (fields_map e) = FieldSet w (fields_map e)"
    by simp
  from s1 s2 d2 merged keys k1 fe1 k2 fe2 show ?thesis
    by blast
qed

theorem WithFields_WithFields_merge_witness:
  "deref ex_world (InfoAt 1) = Some ex_info \<and> valid_ref ex_world (fields_map ex_info) \<and>
   valid_ref ex_world (Some 1) \<and> valid_ref ex_world (Some 2) \<and>
   (\<exists>w1 l1 w2 l2 e2.
      Info_WithFields ex_world (InfoAt 1) (Some 1) = Inr (w1, l1) \<and>
      Info_WithFields w1 l1 (Some 2) = Inr (w2, l2) \<and> deref w2 l2 = Some e2 \<and>
      FieldSet w2 (fields_map e2) ''k'' = Some (VInt 2) \<and>
      FieldSet w2 (fields_map e2) ''j'' = Some (VBool True) \<and>
      FieldSet w2 (fields_map ex_info) ''k'' = Some (VInt 1) \<and>
      FieldSet w2 (fields_map ex_info) ''j'' = None)"
proof -
  have f: "fields_map ex_info = Some 0"
    by (simp add: ex_info_def)
  have v: "valid_ref ex_world (fields_map ex_info)"
    using ex_world_valid(1) f by simp
  from WithFields_WithFields_merge[OF ex_world_info v ex_world_valid(2) ex_world_valid(3)]
  obtain w1 l1 w2 l2 e2 where
    s: "Info_WithFields ex_world (InfoAt 1) (Some 1) = Inr (w1, l1)"
       "Info_WithFields w1 l1 (Some 2) = Inr (w2, l2)" "deref w2 l2 = Some e2"
    and m: "FieldSet w2 (fields_map e2) =
         (FieldSet ex_world (fields_map ex_info) ++ FieldSet ex_world (Some 1)) ++
           FieldSet ex_world (Some 2)"
    and k: "FieldSet w2 (fields_map ex_info) = FieldSet ex_world (fields_map ex_info)"
    by blast
  have r: "FieldSet w2 (fields_map e2) ''k'' = Some (VInt 2)"
      "FieldSet w2 (fields_map e2) ''j'' = Some (VBool True)"
    using m by (simp_all add: f ex_world_FieldSet)
  have o: "FieldSet w2 (fields_map ex_info) ''k'' = Some (VInt 1)"
      "FieldSet w2 (fields_map ex_info) ''j'' = None"
    using k by (simp_all add: f ex_world_FieldSet)
  from s r o ex_world_info v ex_world_valid(2) ex_world_valid(3) show ?thesis
    by blast
qed

text \<open>
  C5. Each derivation changes its own component only. The emitter \<open>V\<close> returns has the
  given level and the receiver's backend, FieldSet and prefix; the one \<open>WithFields\<close>
  returns has the merged FieldSet and the receiver's backend, level and prefix; the one
  \<open>WithPrefix\<close> returns has the receiver's prefix with the given string appended and the
  receiver's backend, level and FieldSet.
\<close>

theorem derivation_changes_one_component:
  assumes "deref w l = Some e" "valid_ref w (fields_map e)" "valid_ref w F"
  shows "(\<exists>w' q. Info_V w l lv = Inr (w', q) \<and>
            deref w' q = Some (e\<lparr>level := lv\<rparr>) \<and>
            observe w' q = Some (logger e, lv, FieldSet w (fields_map e), prefix e)) \<and>
         (\<exists>w' q e'. Info_WithFields w l F = Inr (w', q) \<and>
            deref w' q = Some e' \<and>
            logger e' = logger e \<and> level e' = level e \<and> prefix e' = prefix e \<and>
            observe w' q =
              Some (logger e, level e, FieldSet w (fields_map e) ++ FieldSet w F, prefix e)) \<and>
         (\<exists>w' q. Info_WithPrefix w l P = Inr (w', q) \<and>
            deref w' q = Some (e\<lparr>prefix := prefix e @ P\<rparr>) \<and>
            observe w' q = Some (logger e, level e, FieldSet w (fields_map e), prefix e @ P))"
proof -
  let ?q = "InfoAt (length (infos w))"
  have V: "\<exists>w' q. Info_V w l lv = Inr (w', q) \<and>
            deref w' q = Some (e\<lparr>level := lv\<rparr>) \<and>
            observe w' q = Some (logger e, lv, FieldSet w (fields_map e), prefix e)"
  proof -
    let ?w' = "w\<lparr>infos := infos w @ [e\<lparr>level := lv\<rparr>]\<rparr>"
    have s: "Info_V w l lv = Inr (?w', ?q)"
      by (rule Info_V_step[OF assms(1)])
    have d: "deref ?w' ?q = Some (e\<lparr>level := lv\<rparr>)"
      by (rule deref_last) simp
    have "FieldSet ?w' (fields_map e) = FieldSet w (fields_map e)"
      by (rule FieldSet_same_maps) simp
    with observe_eq[OF d]
    have "observe ?w' ?q = Some (logger e, lv, FieldSet w (fields_map e), prefix e)"
      by simp
    with s d show ?thesis by blast
  qed
  have WF: "\<exists>w' q e'. Info_WithFields w l F = Inr (w', q) \<and>
            deref w' q = Some e' \<and>
            logger e' = logger e \<and> level e' = level e \<and> prefix e' = prefix e \<and>
            observe w' q =
              Some (logger e, level e, FieldSet w (fields_map e) ++ FieldSet w F, prefix e)"
  proof -
    let ?e' = "e\<lparr>fields_map := Some (length (maps w))\<rparr>"
    from Info_WithFields_effect[OF assms] obtain w' where
      s: "Info_WithFields w l F = Inr (w', ?q)"
      and i: "infos w' = infos w @ [?e']"
      and f: "FieldSet w' (Some (length (maps w))) = FieldSet w (fields_map e) ++ FieldSet w F"
      by blast
    have d: "deref w' ?q = Some ?e'"
      by (rule deref_last[OF i])
    from observe_eq[OF d] f
    have "observe w' ?q =
        Some (logger e, level e, FieldSet w (fields_map e) ++ FieldSet w F, prefix e)"
      by simp
    with s d show ?thesis
      by (intro exI[of _ w'] exI[of _ ?q] exI[of _ ?e']) simp
  qed
  have WP: "\<exists>w' q. Info_WithPrefix w l P = Inr (w', q) \<and>
            deref w' q = Some (e\<lparr>prefix := prefix e @ P\<rparr>) \<and>
            observe w' q = Some (logger e, level e, FieldSet w (fields_map e), prefix e @ P)"
  proof -
    let ?w' = "w\<lparr>infos := infos w @ [e\<lparr>prefix := prefix e @ P\<rparr>]\<rparr>"
    have s: "Info_WithPrefix w l P = Inr (?w', ?q)"
      by (rule Info_WithPrefix_step[OF assms(1)])
    have d: "deref ?w' ?q = Some (e\<lparr>prefix := prefix e @ P\<rparr>)"
      by (rule deref_last) simp
    have "FieldSet ?w' (fields_map e) = FieldSet w (fields_map e)"
      by (rule FieldSet_same_maps) simp
    with observe_eq[OF d]
    have "observe ?w' ?q = Some (logger e, level e, FieldSet w (fields_map e), prefix e @ P)"
      by simp
    with s d show ?thesis by blast
  qed
  from V WF WP show ?thesis by blast
qed

theorem derivation_changes_one_component_witness:
  "deref ex_world (InfoAt 1) = Some ex_info \<and> valid_ref ex_world (fields_map ex_info) \<and>
   valid_ref ex_world (Some 2) \<and>
   (\<exists>w' q. Info_V ex_world (InfoAt 1) 5 = Inr (w', q) \<and>
      observe w' q = Some (7, 5, [''k'' \<mapsto> VInt 1], ''p: '')) \<and>
   (\<exists>w' q. Info_WithFields ex_world (InfoAt 1) (Some 2) = Inr (w', q) \<and>
      observe w' q = Some (7, 2, [''k'' \<mapsto> VInt 1, ''j'' \<mapsto> VBool True], ''p: '')) \<and>
   (\<exists>w' q. Info_WithPrefix ex_world (InfoAt 1) ''sub: '' = Inr (w', q) \<and>
      observe w' q = Some (7, 2, [''k'' \<mapsto> VInt 1], ''p: sub: ''))"
proof -
  have f: "fields_map ex_info = Some 0"
    by (simp add: ex_info_def)
  have v: "valid_ref ex_world (fields_map ex_info)"
    using ex_world_valid(1) f by simp
  have m: "[''k'' \<mapsto> VInt 1] ++ [''j'' \<mapsto> VBool True] = [''k'' \<mapsto> VInt 1, ''j'' \<mapsto> VBool True]"
    by simp
  from derivation_changes_one_component[OF ex_world_info v ex_world_valid(3), of 5 "''sub: ''"]
  have "(\<exists>w' q. Info_V ex_world (InfoAt 1) 5 = Inr (w', q) \<and>
      observe w' q = Some (7, 5, [''k'' \<mapsto> VInt 1], ''p: '')) \<and>
   (\<exists>w' q. Info_WithFields ex_world (InfoAt 1) (Some 2) = Inr (w', q) \<and>
      observe w' q = Some (7, 2, [''k'' \<mapsto> VInt 1, ''j'' \<mapsto> VBool True], ''p: '')) \<and>
   (\<exists>w' q. Info_WithPrefix ex_world (InfoAt 1) ''sub: '' = Inr (w', q) \<and>
      observe w' q = Some (7, 2, [''k'' \<mapsto> VInt 1], ''p: sub: ''))"
    unfolding f ex_world_FieldSet m by (simp add: ex_info_def) blast
  with ex_world_info v ex_world_valid(3) show ?thesis by blast
qed

text \<open>
  C7. The derivations \<open>V\<close>, \<open>WithFields\<close> and \<open>WithPrefix\<close>, on an \<open>Info\<close> and on a \<open>Log\<close>,
  return with the list of the calls made on backends as it was: they call no backend.
  Each of \<open>Info\<close>, \<open>Infof\<close>, \<open>Error\<close> and \<open>Errorf\<close> adds exactly one call and changes
  nothing else.
\<close>

theorem derivations_make_no_call:
  assumes "deref w l = Some e" "valid_ref w (fields_map e)" "valid_ref w F"
    and "at (logs w) a = Some L" "valid_ref w (fields_map (info L))"
  shows "(\<exists>w' q. Info_V w l lv = Inr (w', q) \<and> calls w' = calls w) \<and>
         (\<exists>w' q. Info_WithFields w l F = Inr (w', q) \<and> calls w' = calls w) \<and>
         (\<exists>w' q. Info_WithPrefix w l P = Inr (w', q) \<and> calls w' = calls w) \<and>
         (\<exists>w' q. Log_V w a lv = Inr (w', q) \<and> calls w' = calls w) \<and>
         (\<exists>w' b. Log_WithFields w a F = Inr (w', b) \<and> calls w' = calls w) \<and>
         (\<exists>w' b. Log_WithPrefix w a P = Inr (w', b) \<and> calls w' = calls w) \<and>
         (\<exists>c. Info_Info w l args = Inr (w\<lparr>calls := calls w @ [c]\<rparr>)) \<and>
         (\<exists>c. Info_Infof Sprintf w l format args = Inr (w\<lparr>calls := calls w @ [c]\<rparr>)) \<and>
         (\<exists>c. Log_Info w a args = Inr (w\<lparr>calls := calls w @ [c]\<rparr>)) \<and>
         (\<exists>c. Log_Infof Sprintf w a format args = Inr (w\<lparr>calls := calls w @ [c]\<rparr>)) \<and>
         (\<exists>c. Log_Error w a args = Inr (w\<lparr>calls := calls w @ [c]\<rparr>)) \<and>
         (\<exists>c. Log_Errorf Sprintf w a format args = Inr (w\<lparr>calls := calls w @ [c]\<rparr>))"
proof -
  have d: "deref w (InfoOf a) = Some (info L)"
    using assms(4) by simp
  have 1: "\<exists>w' q. Info_V w l lv = Inr (w', q) \<and> calls w' = calls w"
    using Info_V_step[OF assms(1), of lv] by simp
  have 2: "\<exists>w' q. Info_WithFields w l F = Inr (w', q) \<and> calls w' = calls w"
    using Info_WithFields_effect[OF assms(1,2,3)] by blast
  have 3: "\<exists>w' q. Info_WithPrefix w l P = Inr (w', q) \<and> calls w' = calls w"
    using Info_WithPrefix_step[OF assms(1), of P] by simp
  have 4: "\<exists>w' q. Log_V w a lv = Inr (w', q) \<and> calls w' = calls w"
    using Info_V_step[OF d, of lv] by (simp add: Log_V_def)
  have 5: "\<exists>w' b. Log_WithFields w a F = Inr (w', b) \<and> calls w' = calls w"
    using Log_WithFields_effect[OF assms(4,5,3)] by blast
  have 6: "\<exists>w' b. Log_WithPrefix w a P = Inr (w', b) \<and> calls w' = calls w"
    using Log_WithPrefix_step[OF assms(4), of P] by simp
  have 7: "\<exists>c. Info_Info w l args = Inr (w\<lparr>calls := calls w @ [c]\<rparr>)"
    using Info_Info_step[OF assms(1), of args] by blast
  have 8: "\<exists>c. Info_Infof Sprintf w l format args = Inr (w\<lparr>calls := calls w @ [c]\<rparr>)"
    using Info_Infof_step[OF assms(1), of Sprintf format args] by blast
  have 9: "\<exists>c. Log_Info w a args = Inr (w\<lparr>calls := calls w @ [c]\<rparr>)"
    unfolding Log_Info_def using Info_Info_step[OF d, of args] by blast
  have 10: "\<exists>c. Log_Infof Sprintf w a format args = Inr (w\<lparr>calls := calls w @ [c]\<rparr>)"
    unfolding Log_Infof_def using Info_Infof_step[OF d, of Sprintf format args] by blast
  have 11: "\<exists>c. Log_Error w a args = Inr (w\<lparr>calls := calls w @ [c]\<rparr>)"
    using Log_Error_step[OF assms(4), of args] by blast
  have 12: "\<exists>c. Log_Errorf Sprintf w a format args = Inr (w\<lparr>calls := calls w @ [c]\<rparr>)"
    using Log_Errorf_step[OF assms(4), of Sprintf format args] by blast
  from 1 2 3 4 5 6 7 8 9 10 11 12 show ?thesis
    by (intro conjI)
qed

theorem derivations_make_no_call_witness:
  "deref ex_world (InfoAt 1) = Some ex_info \<and> valid_ref ex_world (fields_map ex_info) \<and>
   valid_ref ex_world (Some 1) \<and> at (logs ex_world) 0 = Some ex_log \<and>
   valid_ref ex_world (fields_map (info ex_log)) \<and>
   (\<exists>w' q. Info_WithFields ex_world (InfoAt 1) (Some 1) = Inr (w', q) \<and> calls w' = []) \<and>
   (\<exists>w' b. Log_WithFields ex_world 0 (Some 1) = Inr (w', b) \<and> calls w' = []) \<and>
   (\<exists>c. Log_Error ex_world 0 [] = Inr (ex_world\<lparr>calls := [c]\<rparr>))"
proof -
  have v: "valid_ref ex_world (fields_map ex_info)"
    using ex_world_valid(1) by (simp add: ex_info_def)
  have vl: "valid_ref ex_world (fields_map (info ex_log))"
    using ex_world_valid(1) by (simp add: ex_log_def)
  have c: "calls ex_world = []"
    by (simp add: ex_world_def)
  from derivations_make_no_call[OF ex_world_info v ex_world_valid(2) ex_world_log vl,
      of 0 "[]" "[]" "\<lambda>f a. f" "[]"]
  have "(\<exists>w' q. Info_WithFields ex_world (InfoAt 1) (Some 1) = Inr (w', q) \<and> calls w' = []) \<and>
   (\<exists>w' b. Log_WithFields ex_world 0 (Some 1) = Inr (w', b) \<and> calls w' = []) \<and>
   (\<exists>c. Log_Error ex_world 0 [] = Inr (ex_world\<lparr>calls := [c]\<rparr>))"
    unfolding c by simp
  with ex_world_info v ex_world_valid(2) ex_world_log vl show ?thesis
    by blast
qed

text \<open>
  C6. After \<open>V\<close>, \<open>WithFields\<close> or \<open>WithPrefix\<close> the receiver is still on the heap, the
  same struct, with the same backend, level, FieldSet and prefix, and \<open>Info\<close> through it
  hands the backend what it handed before; the emitter returned is another object.
  Two calls of \<open>V\<close> on one receiver, with the levels \<open>L1\<close> and \<open>L2\<close>, give two different
  emitters holding \<open>L1\<close> and \<open>L2\<close>, and logging through either leaves the other one, its
  level included, as it was.
\<close>

theorem derivation_keeps_receiver:
  assumes "deref w l = Some e" "valid_ref w (fields_map e)" "valid_ref w F"
  shows "(\<exists>w' q. Info_V w l lv = Inr (w', q) \<and> q \<noteq> l \<and> deref w' l = Some e \<and>
            observe w' l = observe w l \<and> Info_delivers w' l args = Info_delivers w l args) \<and>
         (\<exists>w' q. Info_WithFields w l F = Inr (w', q) \<and> q \<noteq> l \<and> deref w' l = Some e \<and>
            observe w' l = observe w l \<and> Info_delivers w' l args = Info_delivers w l args) \<and>
         (\<exists>w' q. Info_WithPrefix w l P = Inr (w', q) \<and> q \<noteq> l \<and> deref w' l = Some e \<and>
            observe w' l = observe w l \<and> Info_delivers w' l args = Info_delivers w l args) \<and>
         (\<exists>w1 q1 w2 q2.
            Info_V w l L1 = Inr (w1, q1) \<and> Info_V w1 l L2 = Inr (w2, q2) \<and> q1 \<noteq> q2 \<and>
            map_option level (deref w2 q1) = Some L1 \<and>
            map_option level (deref w2 q2) = Some L2 \<and>
            (\<exists>w3. Info_Info w2 q1 args = Inr w3 \<and>
               map_option level (deref w3 q2) = Some L2 \<and> observe w3 q2 = observe w2 q2) \<and>
            (\<exists>w3. Info_Info w2 q2 args = Inr w3 \<and>
               map_option level (deref w3 q1) = Some L1 \<and> observe w3 q1 = observe w2 q1))"
proof -
  let ?q = "InfoAt (length (infos w))"
  have nq: "?q \<noteq> l"
    using deref_not_fresh[OF assms(1)] by blast
  have V: "\<exists>w' q. Info_V w l lv = Inr (w', q) \<and> q \<noteq> l \<and> deref w' l = Some e \<and>
            observe w' l = observe w l \<and> Info_delivers w' l args = Info_delivers w l args"
  proof -
    let ?w' = "w\<lparr>infos := infos w @ [e\<lparr>level := lv\<rparr>]\<rparr>"
    have s: "Info_V w l lv = Inr (?w', ?q)"
      by (rule Info_V_step[OF assms(1)])
    have d: "deref ?w' l = Some e"
      by (rule deref_old[OF assms(1), of _ "[e\<lparr>level := lv\<rparr>]"]) simp_all
    have f: "FieldSet ?w' (fields_map e) = FieldSet w (fields_map e)"
      by (rule FieldSet_same_maps) simp
    from s nq d receiver_kept[OF assms(1) d f, of args] show ?thesis by blast
  qed
  have WF: "\<exists>w' q. Info_WithFields w l F = Inr (w', q) \<and> q \<noteq> l \<and> deref w' l = Some e \<and>
            observe w' l = observe w l \<and> Info_delivers w' l args = Info_delivers w l args"
  proof -
    from Info_WithFields_effect[OF assms] obtain w' m where
      s: "Info_WithFields w l F = Inr (w', ?q)"
      and i: "infos w' = infos w @ [e\<lparr>fields_map := Some (length (maps w))\<rparr>]"
      and g: "logs w' = logs w" and m: "maps w' = maps w @ [m]"
      by blast
    have d: "deref w' l = Some e"
      by (rule deref_old[OF assms(1) g i])
    have f: "FieldSet w' (fields_map e) = FieldSet w (fields_map e)"
      by (rule FieldSet_grow[OF assms(2) m])
    from s nq d receiver_kept[OF assms(1) d f, of args] show ?thesis by blast
  qed
  have WP: "\<exists>w' q. Info_WithPrefix w l P = Inr (w', q) \<and> q \<noteq> l \<and> deref w' l = Some e \<and>
            observe w' l = observe w l \<and> Info_delivers w' l args = Info_delivers w l args"
  proof -
    let ?w' = "w\<lparr>infos := infos w @ [e\<lparr>prefix := prefix e @ P\<rparr>]\<rparr>"
    have s: "Info_WithPrefix w l P = Inr (?w', ?q)"
      by (rule Info_WithPrefix_step[OF assms(1)])
    have d: "deref ?w' l = Some e"
      by (rule deref_old[OF assms(1), of _ "[e\<lparr>prefix := prefix e @ P\<rparr>]"]) simp_all
    have f: "FieldSet ?w' (fields_map e) = FieldSet w (fields_map e)"
      by (rule FieldSet_same_maps) simp
    from s nq d receiver_kept[OF assms(1) d f, of args] show ?thesis by blast
  qed
  have VV: "\<exists>w1 q1 w2 q2.
            Info_V w l L1 = Inr (w1, q1) \<and> Info_V w1 l L2 = Inr (w2, q2) \<and> q1 \<noteq> q2 \<and>
            map_option level (deref w2 q1) = Some L1 \<and>
            map_option level (deref w2 q2) = Some L2 \<and>
            (\<exists>w3. Info_Info w2 q1 args = Inr w3 \<and>
               map_option level (deref w3 q2) = Some L2 \<and> observe w3 q2 = observe w2 q2) \<and>
            (\<exists>w3. Info_Info w2 q2 args = Inr w3 \<and>
               map_option level (deref w3 q1) = Some L1 \<and> observe w3 q1 = observe w2 q1)"
  proof -
    let ?e1 = "e\<lparr>level := L1\<rparr>" and ?e2 = "e\<lparr>level := L2\<rparr>"
    let ?w1 = "w\<lparr>infos := infos w @ [?e1]\<rparr>"
    let ?w2 = "?w1\<lparr>infos := infos ?w1 @ [?e2]\<rparr>"
    let ?q2 = "InfoAt (length (infos ?w1))"
    have s1: "Info_V w l L1 = Inr (?w1, ?q)"
      by (rule Info_V_step[OF assms(1)])
    have k1: "deref ?w1 l = Some e"
      by (rule deref_old[OF assms(1), of _ "[?e1]"]) simp_all
    have s2: "Info_V ?w1 l L2 = Inr (?w2, ?q2)"
      by (rule Info_V_step[OF k1])
    have ne: "?q \<noteq> ?q2"
      by simp
    have d1: "deref ?w2 ?q = Some ?e1"
      by (simp add: at_def nth_append)
    have d2: "deref ?w2 ?q2 = Some ?e2"
      by (simp add: at_def nth_append)
    let ?c1 = "LogInfo (logger ?e1) (level ?e1) (fields_map ?e1)
                 (prefix ?e1 @ join_spaces (map printArg args))"
    let ?c2 = "LogInfo (logger ?e2) (level ?e2) (fields_map ?e2)
                 (prefix ?e2 @ join_spaces (map printArg args))"
    let ?w3 = "?w2\<lparr>calls := calls ?w2 @ [?c1]\<rparr>"
    let ?w4 = "?w2\<lparr>calls := calls ?w2 @ [?c2]\<rparr>"
    have u1: "Info_Info ?w2 ?q args = Inr ?w3"
      by (rule Info_Info_step[OF d1])
    have u2: "Info_Info ?w2 ?q2 args = Inr ?w4"
      by (rule Info_Info_step[OF d2])
    have a1: "map_option level (deref ?w3 ?q2) = Some L2"
      unfolding deref_calls d2 by simp
    have a2: "map_option level (deref ?w4 ?q) = Some L1"
      unfolding deref_calls d1 by simp
    have o1: "observe ?w3 ?q2 = observe ?w2 ?q2"
      by (rule observe_calls)
    have o2: "observe ?w4 ?q = observe ?w2 ?q"
      by (rule observe_calls)
    have l1: "map_option level (deref ?w2 ?q) = Some L1"
      unfolding d1 by simp
    have l2: "map_option level (deref ?w2 ?q2) = Some L2"
      unfolding d2 by simp
    from s1 s2 ne l1 l2 u1 a1 o1 u2 a2 o2 show ?thesis
      by blast
  qed
  from V WF WP VV show ?thesis by (intro conjI)
qed

theorem derivation_keeps_receiver_witness:
  "deref ex_world (InfoAt 1) = Some ex_info \<and> valid_ref ex_world (fields_map ex_info) \<and>
   valid_ref ex_world (Some 1) \<and>
   (\<exists>w' q. Info_WithFields ex_world (InfoAt 1) (Some 1) = Inr (w', q) \<and> q \<noteq> InfoAt 1 \<and>
      deref w' (InfoAt 1) = Some ex_info \<and>
      observe w' (InfoAt 1) = Some (7, 2, [''k'' \<mapsto> VInt 1], ''p: '')) \<and>
   (\<exists>w1 q1 w2 q2.
      Info_V ex_world (InfoAt 1) 3 = Inr (w1, q1) \<and> Info_V w1 (InfoAt 1) 4 = Inr (w2, q2) \<and>
      q1 \<noteq> q2 \<and> map_option level (deref w2 q1) = Some 3 \<and>
      map_option level (deref w2 q2) = Some 4 \<and>
      (\<exists>w3. Info_Info w2 q1 [] = Inr w3 \<and> map_option level (deref w3 q2) = Some 4))"
proof -
  have v: "valid_ref ex_world (fields_map ex_info)"
    using ex_world_valid(1) by (simp add: ex_info_def)
  have o: "observe ex_world (InfoAt 1) = Some (7, 2, [''k'' \<mapsto> VInt 1], ''p: '')"
    using observe_eq[OF ex_world_info] by (simp add: ex_info_def ex_world_FieldSet)
  from derivation_keeps_receiver[OF ex_world_info v ex_world_valid(2), of 0 "[]" "[]" 3 4]
  have "(\<exists>w' q. Info_WithFields ex_world (InfoAt 1) (Some 1) = Inr (w', q) \<and> q \<noteq> InfoAt 1 \<and>
      deref w' (InfoAt 1) = Some ex_info \<and>
      observe w' (InfoAt 1) = Some (7, 2, [''k'' \<mapsto> VInt 1], ''p: '')) \<and>
   (\<exists>w1 q1 w2 q2.
      Info_V ex_world (InfoAt 1) 3 = Inr (w1, q1) \<and> Info_V w1 (InfoAt 1) 4 = Inr (w2, q2) \<and>
      q1 \<noteq> q2 \<and> map_option level (deref w2 q1) = Some 3 \<and>
      map_option level (deref w2 q2) = Some 4 \<and>
      (\<exists>w3. Info_Info w2 q1 [] = Inr w3 \<and> map_option level (deref w3 q2) = Some 4))"
    unfolding o by blast
  with ex_world_info v ex_world_valid(2) show ?thesis
    by blast
qed

text \<open>
  C10. \<open>WithFields\<close> with a map that has no entry (the nil map or an empty map object)
  and \<open>WithPrefix\<close> with the empty string give an emitter with the backend, the level,
  the FieldSet and the prefix of the receiver, so \<open>Info\<close> and \<open>Infof\<close> (whatever
  \<^verbatim>\<open>Sprintf\<close> computes) hand the backend through it the level, the fields and the
  message they hand it through the receiver. FieldSets are compared by content: the
  emitter \<open>WithFields\<close> returns refers to a map object of its own.
\<close>

theorem empty_derivation_is_identity:
  assumes "deref w l = Some e" "valid_ref w (fields_map e)" "valid_ref w F"
    and "FieldSet w F = Map.empty"
  shows "(\<exists>w' q. Info_WithFields w l F = Inr (w', q) \<and>
            observe w' q = Some (logger e, level e, FieldSet w (fields_map e), prefix e) \<and>
            observe w' q = observe w l \<and> observe w' q = observe w' l \<and>
            Info_delivers w' q args = Info_delivers w' l args \<and>
            Info_delivers w' q args = Info_delivers w l args \<and>
            Infof_delivers Sprintf w' q format args = Infof_delivers Sprintf w' l format args \<and>
            Infof_delivers Sprintf w' q format args = Infof_delivers Sprintf w l format args \<and>
            Info_delivers w' q args \<noteq> None \<and>
            Infof_delivers Sprintf w' q format args \<noteq> None) \<and>
         (\<exists>w' q. Info_WithPrefix w l [] = Inr (w', q) \<and>
            observe w' q = Some (logger e, level e, FieldSet w (fields_map e), prefix e) \<and>
            observe w' q = observe w l \<and> observe w' q = observe w' l \<and>
            Info_delivers w' q args = Info_delivers w' l args \<and>
            Info_delivers w' q args = Info_delivers w l args \<and>
            Infof_delivers Sprintf w' q format args = Infof_delivers Sprintf w' l format args \<and>
            Infof_delivers Sprintf w' q format args = Infof_delivers Sprintf w l format args \<and>
            Info_delivers w' q args \<noteq> None \<and>
            Infof_delivers Sprintf w' q format args \<noteq> None)"
proof -
  let ?q = "InfoAt (length (infos w))"
  let ?fs = "FieldSet w (fields_map e)"
  have same: "observe w' ?q = Some (logger e, level e, ?fs, prefix e) \<and>
            observe w' ?q = observe w l \<and> observe w' ?q = observe w' l \<and>
            Info_delivers w' ?q args = Info_delivers w' l args \<and>
            Info_delivers w' ?q args = Info_delivers w l args \<and>
            Infof_delivers Sprintf w' ?q format args = Infof_delivers Sprintf w' l format args \<and>
            Infof_delivers Sprintf w' ?q format args = Infof_delivers Sprintf w l format args \<and>
            Info_delivers w' ?q args \<noteq> None \<and>
            Infof_delivers Sprintf w' ?q format args \<noteq> None"
    if dq: "deref w' ?q = Some e'" and dl: "deref w' l = Some e"
      and c: "logger e' = logger e" "level e' = level e" "prefix e' = prefix e"
      and fq: "FieldSet w' (fields_map e') = ?fs" and fl: "FieldSet w' (fields_map e) = ?fs"
    for w' e'
    using observe_eq[OF dq] observe_eq[OF dl] observe_eq[OF assms(1)]
      Info_delivers_eq[OF dq, of args] Info_delivers_eq[OF dl, of args]
      Info_delivers_eq[OF assms(1), of args]
      Infof_delivers_eq[OF dq, of Sprintf format args]
      Infof_delivers_eq[OF dl, of Sprintf format args]
      Infof_delivers_eq[OF assms(1), of Sprintf format args]
      c fq fl
    by simp
  have WF: "\<exists>w' q. Info_WithFields w l F = Inr (w', q) \<and>
            observe w' q = Some (logger e, level e, FieldSet w (fields_map e), prefix e) \<and>
            observe w' q = observe w l \<and> observe w' q = observe w' l \<and>
            Info_delivers w' q args = Info_delivers w' l args \<and>
            Info_delivers w' q args = Info_delivers w l args \<and>
            Infof_delivers Sprintf w' q format args = Infof_delivers Sprintf w' l format args \<and>
            Infof_delivers Sprintf w' q format args = Infof_delivers Sprintf w l format args \<and>
            Info_delivers w' q args \<noteq> None \<and>
            Infof_delivers Sprintf w' q format args \<noteq> None"
  proof -
    let ?e' = "e\<lparr>fields_map := Some (length (maps w))\<rparr>"
    from Info_WithFields_effect[OF assms(1,2,3)] obtain w' m where
      s: "Info_WithFields w l F = Inr (w', ?q)"
      and i: "infos w' = infos w @ [?e']"
      and g: "logs w' = logs w" and m: "maps w' = maps w @ [m]"
      and f: "FieldSet w' (Some (length (maps w))) = ?fs ++ FieldSet w F"
      by blast
    have dq: "deref w' ?q = Some ?e'"
      by (rule deref_last[OF i])
    have dl: "deref w' l = Some e"
      by (rule deref_old[OF assms(1) g i])
    have fq: "FieldSet w' (fields_map ?e') = ?fs"
      using f assms(4) by simp
    have fl: "FieldSet w' (fields_map e) = ?fs"
      by (rule FieldSet_grow[OF assms(2) m])
    have c: "logger ?e' = logger e" "level ?e' = level e" "prefix ?e' = prefix e"
      by simp_all
    from s same[OF dq dl c fq fl] show ?thesis
      by blast
  qed
  have WP: "\<exists>w' q. Info_WithPrefix w l [] = Inr (w', q) \<and>
            observe w' q = Some (logger e, level e, FieldSet w (fields_map e), prefix e) \<and>
            observe w' q = observe w l \<and> observe w' q = observe w' l \<and>
            Info_delivers w' q args = Info_delivers w' l args \<and>
            Info_delivers w' q args = Info_delivers w l args \<and>
            Infof_delivers Sprintf w' q format args = Infof_delivers Sprintf w' l format args \<and>
            Infof_delivers Sprintf w' q format args = Infof_delivers Sprintf w l format args \<and>
            Info_delivers w' q args \<noteq> None \<and>
            Infof_delivers Sprintf w' q format args \<noteq> None"
  proof -
    let ?e' = "e\<lparr>prefix := prefix e @ []\<rparr>"
    let ?w' = "w\<lparr>infos := infos w @ [?e']\<rparr>"
    have s: "Info_WithPrefix w l [] = Inr (?w', ?q)"
      by (rule Info_WithPrefix_step[OF assms(1)])
    have dq: "deref ?w' ?q = Some ?e'"
      by (rule deref_last) simp
    have dl: "deref ?w' l = Some e"
      by (rule deref_old[OF assms(1), of _ "[?e']"]) simp_all
    have fl: "FieldSet ?w' (fields_map e) = ?fs"
      by (rule FieldSet_same_maps) simp
    then have fq: "FieldSet ?w' (fields_map ?e') = ?fs"
      by simp
    have c: "logger ?e' = logger e" "level ?e' = level e" "prefix ?e' = prefix e"
      by simp_all
    from s same[OF dq dl c fq fl] show ?thesis
      by blast
  qed
  from WF WP show ?thesis by (intro conjI)
qed

theorem empty_derivation_is_identity_witness:
  "deref ex_world (InfoAt 1) = Some ex_info \<and> valid_ref ex_world (fields_map ex_info) \<and>
   valid_ref ex_world (Some 3) \<and> FieldSet ex_world (Some 3) = Map.empty \<and>
   (\<exists>w' q. Info_WithFields ex_world (InfoAt 1) (Some 3) = Inr (w', q) \<and>
      observe w' q = Some (7, 2, [''k'' \<mapsto> VInt 1], ''p: '') \<and>
      Info_delivers w' q [VString ''a''] =
        Some [InfoDelivery 7 2 [''k'' \<mapsto> VInt 1] ''p: a'']) \<and>
   (\<exists>w' q. Info_WithPrefix ex_world (InfoAt 1) [] = Inr (w', q) \<and>
      observe w' q = Some (7, 2, [''k'' \<mapsto> VInt 1], ''p: '') \<and>
      Info_delivers w' q [VString ''a''] =
        Some [InfoDelivery 7 2 [''k'' \<mapsto> VInt 1] ''p: a''])"
proof -
  have v: "valid_ref ex_world (fields_map ex_info)"
    using ex_world_valid(1) by (simp add: ex_info_def)
  have d: "Info_delivers ex_world (InfoAt 1) [VString ''a''] =
        Some [InfoDelivery 7 2 [''k'' \<mapsto> VInt 1] ''p: a'']"
    using Info_delivers_eq[OF ex_world_info, of "[VString ''a'']"]
    by (simp add: ex_info_def ex_world_FieldSet)
  have f: "FieldSet ex_world (fields_map ex_info) = [''k'' \<mapsto> VInt 1]"
    by (simp add: ex_info_def ex_world_FieldSet)
  have c: "logger ex_info = 7" "level ex_info = 2" "prefix ex_info = ''p: ''"
    by (simp_all add: ex_info_def)
  from empty_derivation_is_identity[OF ex_world_info v ex_world_valid(4) ex_world_FieldSet(5),
      of "[VString ''a'']" "\<lambda>f a. f" "[]"]
  have "(\<exists>w' q. Info_WithFields ex_world (InfoAt 1) (Some 3) = Inr (w', q) \<and>
      observe w' q = Some (7, 2, [''k'' \<mapsto> VInt 1], ''p: '') \<and>
      Info_delivers w' q [VString ''a''] =
        Some [InfoDelivery 7 2 [''k'' \<mapsto> VInt 1] ''p: a'']) \<and>
   (\<exists>w' q. Info_WithPrefix ex_world (InfoAt 1) [] = Inr (w', q) \<and>
      observe w' q = Some (7, 2, [''k'' \<mapsto> VInt 1], ''p: '') \<and>
      Info_delivers w' q [VString ''a''] =
        Some [InfoDelivery 7 2 [''k'' \<mapsto> VInt 1] ''p: a''])"
    unfolding d f c by blast
  with ex_world_info v ex_world_valid(4) ex_world_FieldSet(5) show ?thesis
    by blast
qed

end
